theory Spec2Isabelle
  imports Main
begin

section \<open>Scene graph: \<open>Group.add\<close>\<close>

text \<open>
  \<^verbatim>\<open>src/modules/core/src/scenegraph/group.js\<close>. An argument of \<open>add\<close> is either an
  array (\<open>Array.isArray(child)\<close>) or anything else; the element type \<open>'n\<close> stands for
  the non-array values (the scene-graph nodes).
\<close>

datatype 'n child = Node 'n | Array "'n child list"

text \<open>
  A \<open>Group\<close> is a \<open>Node\<close> with a \<open>children\<close> array. The fields inherited from the
  \<open>Node\<close> base class are the record's extension part, which \<open>add\<close> never names.
\<close>

record 'n group =
  children :: "'n list"

text \<open>
  \<^verbatim>\<open>
  add(...children) {
    for (const child of children) {
      if (Array.isArray(child)) { this.add(...child); }
      else { this.children.push(child); }
    }
    return this;
  }
  \<close>
  The loop over the argument list is the recursion on the list; the mutated
  \<open>this\<close> is passed along and returned.
\<close>

function add :: "'n child list \<Rightarrow> ('n, 'm) group_scheme \<Rightarrow> ('n, 'm) group_scheme" where
  "add [] g = g"
| "add (Node n # cs) g = add cs (g\<lparr>children := children g @ [n]\<rparr>)"
| "add (Array xs # cs) g = add cs (add xs g)"
  by pat_completeness auto
termination
  by (relation "measure (\<lambda>(cs, g). size_list size cs)") auto

text \<open>
  The leaves of an argument in depth-first, left-to-right order: the reading of
  "the non-array leaf nodes" that \<open>add\<close> is compared with.
\<close>

fun leaves :: "'n child \<Rightarrow> 'n list" where
  "leaves (Node n) = [n]"
| "leaves (Array xs) = concat (map leaves xs)"

section \<open>Animation loop: the \<open>needsRedraw\<close> flag\<close>

text \<open>
  JavaScript values that can reach \<open>setNeedsRedraw\<close> and the \<open>needsRedraw\<close> field, as
  far as \<open>typeof\<close> and truthiness tell them apart.
\<close>

datatype js_value = JNull | JUndefined | JBool bool | JNum int | JStr string

fun typeof :: "js_value \<Rightarrow> string" where
  "typeof JNull = ''object''"
| "typeof JUndefined = ''undefined''"
| "typeof (JBool b) = ''boolean''"
| "typeof (JNum n) = ''number''"
| "typeof (JStr s) = ''string''"

text \<open>JavaScript truthiness: \<open>null\<close>, \<open>undefined\<close>, \<open>false\<close>, \<open>0\<close> and \<open>''\<close> are falsy.\<close>

fun truthy :: "js_value \<Rightarrow> bool" where
  "truthy JNull = False"
| "truthy JUndefined = False"
| "truthy (JBool b) = b"
| "truthy (JNum n) = (n \<noteq> 0)"
| "truthy (JStr s) = (s \<noteq> [])"

text \<open>\<open>a || b\<close> evaluates to \<open>a\<close> when \<open>a\<close> is truthy, to \<open>b\<close> otherwise.\<close>

definition js_or :: "js_value \<Rightarrow> js_value \<Rightarrow> js_value" where
  "js_or a b = (if truthy a then a else b)"

datatype error = AssertionFailed

text \<open>
  \<open>assert\<close> is imported from \<^verbatim>\<open>../utils/assert\<close>, which is not among the sources.

  Modelled from the spec: \<open>assert(condition)\<close> is "a local assertion failure - fatal,
  not recoverable": it throws when the condition is false and does nothing otherwise.
\<close>

definition assert :: "bool \<Rightarrow> error + unit" where
  "assert c = (if c then Inr () else Inl AssertionFailed)"

text \<open>
  The field \<open>needsRedraw\<close> is set to \<open>null\<close> by the constructor and by
  \<open>_clearNeedsRedraw\<close>, and written by \<open>setNeedsRedraw\<close>; no other code writes it. The
  other fields of the loop are the record's extension part.
\<close>

record animation_loop =
  needsRedraw :: js_value

text \<open>
  \<^verbatim>\<open>
  setNeedsRedraw(reason) {
    assert(typeof reason === 'string');
    this.needsRedraw = this.needsRedraw || reason;
    return this;
  }
  \<close>
  A failed assertion is \<open>Inl\<close>; otherwise the updated \<open>this\<close> is returned.
\<close>

definition setNeedsRedraw :: "js_value \<Rightarrow> 'm animation_loop_scheme \<Rightarrow> error + 'm animation_loop_scheme" where
  "setNeedsRedraw reason al =
     (case assert (typeof reason = ''string'') of
        Inl e \<Rightarrow> Inl e
      | Inr _ \<Rightarrow> Inr (al\<lparr>needsRedraw := js_or (needsRedraw al) reason\<rparr>))"

text \<open>\<^verbatim>\<open>_clearNeedsRedraw() { this.needsRedraw = null; }\<close>\<close>

definition clearNeedsRedraw :: "'m animation_loop_scheme \<Rightarrow> 'm animation_loop_scheme" where
  "clearNeedsRedraw al = al\<lparr>needsRedraw := JNull\<rparr>"

section \<open>The WebGL context as seen by \<open>Query\<close>\<close>

type_synonym glenum = nat

definition GL_QUERY_COUNTER_BITS_EXT :: glenum where "GL_QUERY_COUNTER_BITS_EXT = 0x8864"
definition GL_QUERY_RESULT_AVAILABLE :: glenum where "GL_QUERY_RESULT_AVAILABLE = 0x8867"
definition GL_TIME_ELAPSED_EXT :: glenum where "GL_TIME_ELAPSED_EXT = 0x88bf"
definition GL_TIMESTAMP_EXT :: glenum where "GL_TIMESTAMP_EXT = 0x8e28"
definition GL_GPU_DISJOINT_EXT :: glenum where "GL_GPU_DISJOINT_EXT = 0x8fbb"
definition GL_TRANSFORM_FEEDBACK_PRIMITIVES_WRITTEN :: glenum where
  "GL_TRANSFORM_FEEDBACK_PRIMITIVES_WRITTEN = 0x8c88"
definition GL_ANY_SAMPLES_PASSED :: glenum where "GL_ANY_SAMPLES_PASSED = 0x8c2f"
definition GL_ANY_SAMPLES_PASSED_CONSERVATIVE :: glenum where
  "GL_ANY_SAMPLES_PASSED_CONSERVATIVE = 0x8d6a"

definition ERR_GPU_DISJOINT :: string where
  "ERR_GPU_DISJOINT = ''Disjoint GPU operation invalidated timer queries''"
definition ERR_TIMER_QUERY_NOT_SUPPORTED :: string where
  "ERR_TIMER_QUERY_NOT_SUPPORTED = ''Timer queries require \"EXT_disjoint_timer_query\" extension''"

text \<open>
  A device-side query object (\<open>this.handle\<close>) is a number, or \<open>None\<close> for the \<open>null\<close>
  that \<open>_createHandle\<close> yields on a context without query support.
\<close>

type_synonym gl_handle = "nat option"

text \<open>Every call of a method of \<open>gl\<close> that the source makes is recorded, in order.\<close>

datatype gl_call =
    GlGetQuery glenum glenum
  | GlBeginQuery glenum gl_handle
  | GlEndQuery glenum
  | GlQueryCounter gl_handle glenum
  | GlGetQueryParameter gl_handle glenum
  | GlGetParameter glenum

text \<open>
  The context is external to the repository. Its record holds what the hardware and the
  driver would answer at this moment, and the calls made so far:
  \<^item> \<open>webgl2\<close> is \<open>isWebGL2(gl)\<close> and \<open>timerQuery\<close> is
    \<open>hasFeatures(gl, FEATURES.TIMER_QUERY)\<close> (both helpers are outside the sources and
    only read the context);
  \<^item> \<open>counterBits\<close> is the answer of \<open>gl.getQuery(GL_TIMESTAMP_EXT, GL_QUERY_COUNTER_BITS_EXT)\<close>;
  \<^item> \<open>beginQueryThrows\<close> and \<open>queryCounterThrows\<close> say whether the two calls that the
    source wraps in \<open>try\<close> throw; the calls outside a \<open>try\<close> block are taken to return;
  \<^item> \<open>resultAvailable\<close> is the answer of
    \<open>gl.getQueryParameter(handle, GL_QUERY_RESULT_AVAILABLE)\<close>;
  \<^item> \<open>gpuDisjoint\<close> is the context-wide disjoint flag.
\<close>

record gl_context =
  webgl2 :: bool
  timerQuery :: bool
  counterBits :: int
  beginQueryThrows :: "glenum \<Rightarrow> gl_handle \<Rightarrow> bool"
  queryCounterThrows :: "gl_handle \<Rightarrow> glenum \<Rightarrow> bool"
  resultAvailable :: "gl_handle \<Rightarrow> bool"
  gpuDisjoint :: bool
  calls :: "gl_call list"

definition gl_log :: "gl_call \<Rightarrow> gl_context \<Rightarrow> gl_context" where
  "gl_log c g = g\<lparr>calls := calls g @ [c]\<rparr>"

definition gl_getQuery :: "glenum \<Rightarrow> glenum \<Rightarrow> gl_context \<Rightarrow> int \<times> gl_context" where
  "gl_getQuery tgt pname g = (counterBits g, gl_log (GlGetQuery tgt pname) g)"

definition gl_getQueryParameter_AVAILABLE :: "gl_handle \<Rightarrow> gl_context \<Rightarrow> bool \<times> gl_context" where
  "gl_getQueryParameter_AVAILABLE h g =
     (resultAvailable g h, gl_log (GlGetQueryParameter h GL_QUERY_RESULT_AVAILABLE) g)"

text \<open>
  \<open>gl.getParameter(GL_GPU_DISJOINT_EXT)\<close>: "Note: Querying the disjoint state resets it"
  (comment at the \<open>setInvalidator\<close> call).
\<close>

definition gl_getParameter_DISJOINT :: "gl_context \<Rightarrow> bool \<times> gl_context" where
  "gl_getParameter_DISJOINT g =
     (gpuDisjoint g, gl_log (GlGetParameter GL_GPU_DISJOINT_EXT) (g\<lparr>gpuDisjoint := False\<rparr>))"

section \<open>The query manager\<close>

text \<open>
  \<open>Query\<close> imports a singleton \<open>queryManager\<close> from \<^verbatim>\<open>../utils/query-manager\<close>, which is
  not among the sources; only its callers are. A query object is known to the manager
  by its identity (a number), a callback by its name (a number), and a query type
  (a JavaScript class) by a tag.
\<close>

type_synonym query_id = nat
type_synonym callback = nat

datatype query_type = QueryClass | OtherClass nat

text \<open>An invocation of a callback of the pending entry of a query, with its argument.\<close>

datatype cb_event = Invoke (ev_query: query_id) (ev_callback: callback) (ev_arg: string)

record pending_entry =
  e_query :: query_id
  e_type :: query_type
  e_onComplete :: callback
  e_onError :: callback

record invalidator =
  queryType :: query_type
  errorMessage :: string
  checkInvalid :: "gl_context \<Rightarrow> bool \<times> gl_context"

text \<open>The calls the manager receives, in order.\<close>

datatype manager_call =
    BeginQueryCall query_id
  | RejectQueryCall query_id string
  | CancelQueryCall query_id
  | PollCall
  | SetInvalidatorCall query_type

text \<open>
  Modelled from the spec: the state of the Query Manager, which is absent from the
  sources. \<open>pendingQueries\<close> is the "set of Query objects currently between begin and a
  resolved/rejected result, each paired with its completion/error callback" and
  \<open>invalidators\<close> the "mapping from query-type to a disjoint-state checker function and
  an error message". \<open>requests\<close> records the calls received.
\<close>

record query_manager =
  pendingQueries :: "pending_entry list"
  invalidators :: "invalidator list"
  requests :: "manager_call list"

text \<open>
  What the methods of \<open>Query\<close> act on besides \<open>this\<close>: the context \<open>this.gl\<close>, the
  manager, and the callbacks invoked so far.
\<close>

record env =
  gl :: gl_context
  queryManager :: query_manager
  callbacks :: "cb_event list"

definition request :: "manager_call \<Rightarrow> env \<Rightarrow> env" where
  "request c w = w\<lparr>queryManager := (queryManager w)\<lparr>requests := requests (queryManager w) @ [c]\<rparr>\<rparr>"

definition set_pending :: "pending_entry list \<Rightarrow> env \<Rightarrow> env" where
  "set_pending es w = w\<lparr>queryManager := (queryManager w)\<lparr>pendingQueries := es\<rparr>\<rparr>"

definition pending :: "env \<Rightarrow> pending_entry list" where
  "pending w = pendingQueries (queryManager w)"

text \<open>
  Modelled from the spec: \<open>queryManager.beginQuery\<close>, absent from the sources. It "adds
  query to the pending set with its callback pair. If an entry already exists for that
  query object [...] the prior callbacks are dropped without invocation, and the new
  pair replaces them."
\<close>

definition beginQuery :: "query_id \<Rightarrow> query_type \<Rightarrow> callback \<Rightarrow> callback \<Rightarrow> env \<Rightarrow> env" where
  "beginQuery q ty onC onE w =
     (let w1 = request (BeginQueryCall q) w
      in set_pending
           (filter (\<lambda>e. e_query e \<noteq> q) (pending w1) @
            [\<lparr>e_query = q, e_type = ty, e_onComplete = onC, e_onError = onE\<rparr>]) w1)"

text \<open>
  Modelled from the spec: \<open>queryManager.rejectQuery\<close>, absent from the sources. It
  "invokes the registered onError with message, removes the entry. Idempotent -
  rejecting an already-resolved/absent query is a no-op."
\<close>

definition rejectQuery :: "query_id \<Rightarrow> string \<Rightarrow> env \<Rightarrow> env" where
  "rejectQuery q msg w =
     (let w1 = request (RejectQueryCall q msg) w
      in case find (\<lambda>e. e_query e = q) (pending w1) of
           None \<Rightarrow> w1
         | Some e \<Rightarrow>
             set_pending (filter (\<lambda>e. e_query e \<noteq> q) (pending w1))
               (w1\<lparr>callbacks := callbacks w1 @ [Invoke q (e_onError e) msg]\<rparr>))"

text \<open>
  Modelled from the spec: \<open>queryManager.cancelQuery\<close>, absent from the sources. It
  "removes the entry without invoking either callback."
\<close>

definition cancelQuery :: "query_id \<Rightarrow> env \<Rightarrow> env" where
  "cancelQuery q w =
     (let w1 = request (CancelQueryCall q) w
      in set_pending (filter (\<lambda>e. e_query e \<noteq> q) (pending w1)) w1)"

text \<open>
  Modelled from the spec: \<open>queryManager.setInvalidator\<close>, absent from the sources. It
  "registers, once, the predicate used by poll for a given query type. Multiple
  registrations for the same type overwrite the previous one."
\<close>

definition setInvalidator :: "invalidator \<Rightarrow> query_manager \<Rightarrow> query_manager" where
  "setInvalidator iv m =
     m\<lparr>invalidators := filter (\<lambda>i. queryType i \<noteq> queryType iv) (invalidators m) @ [iv],
       requests := requests m @ [SetInvalidatorCall (queryType iv)]\<rparr>"

text \<open>
  Modelled from the spec: the sweep of \<open>queryManager.poll\<close>, absent from the sources.
  For every type registered via \<open>setInvalidator\<close> it "checks the type's disjoint-state
  predicate; if disjoint, rejects every pending query of that type with the type's
  fixed error message and removes them from the pending set." The predicate consumes
  the hardware flag, so it is read once for the type and not once for each query
  ("it must be read at most once per polling pass").
\<close>

definition rejectPendingOfType :: "query_type \<Rightarrow> string \<Rightarrow> env \<Rightarrow> env" where
  "rejectPendingOfType ty msg w =
     fold (\<lambda>e. rejectQuery (e_query e) msg) (filter (\<lambda>e. e_type e = ty) (pending w)) w"

fun pollInvalidators :: "invalidator list \<Rightarrow> env \<Rightarrow> env" where
  "pollInvalidators [] w = w"
| "pollInvalidators (iv # ivs) w =
     (case checkInvalid iv (gl w) of
        (invalid, g) \<Rightarrow>
          pollInvalidators ivs
            (if invalid then rejectPendingOfType (queryType iv) (errorMessage iv) (w\<lparr>gl := g\<rparr>)
             else w\<lparr>gl := g\<rparr>))"

definition poll :: "env \<Rightarrow> env" where
  "poll w = (let w1 = request PollCall w in pollInvalidators (invalidators (queryManager w1)) w1)"

text \<open>
  The registration that the module of \<open>Query\<close> performs when it is loaded:
  \<^verbatim>\<open>
  queryManager.setInvalidator({
    queryType: Query,
    errorMessage: ERR_GPU_DISJOINT,
    // Note: Querying the disjoint state resets it
    checkInvalid: gl => gl.getParameter(GL_GPU_DISJOINT_EXT)
  });
  \<close>
\<close>

definition Query_invalidator :: invalidator where
  "Query_invalidator =
     \<lparr>queryType = QueryClass, errorMessage = ERR_GPU_DISJOINT,
      checkInvalid = gl_getParameter_DISJOINT\<rparr>"

definition emptyManager :: query_manager where
  "emptyManager = \<lparr>pendingQueries = [], invalidators = [], requests = []\<rparr>"

definition loadedManager :: query_manager where
  "loadedManager = setInvalidator Query_invalidator emptyManager"

section \<open>\<open>Query\<close>\<close>

text \<open>
  The fields the constructor sets, with the identity of the object (\<open>qid\<close>) and the
  \<open>handle\<close> of the \<open>Resource\<close> base class. \<open>target\<close> is \<open>None\<close> for \<open>null\<close>. The field
  \<open>promise\<close> is set to \<open>null\<close> and never read or written by \<open>Query\<close>; it is left out.
\<close>

record query =
  qid :: query_id
  handle :: gl_handle
  target :: "glenum option"
  queryPending :: bool
  onComplete :: callback
  onError :: callback

definition Query_new :: "query_id \<Rightarrow> gl_handle \<Rightarrow> callback \<Rightarrow> callback \<Rightarrow> query" where
  "Query_new i h onC onE =
     \<lparr>qid = i, handle = h, target = None, queryPending = False, onComplete = onC, onError = onE\<rparr>"

text \<open>
  \<open>if (this.target)\<close>: \<open>null\<close> and the number \<open>0\<close> are falsy. (A falsy target is never
  \<open>Some\<close> of a truthy number, so the \<open>None\<close> branch under the test in \<open>Query_end\<close> below
  is never taken.)
\<close>

definition truthy_target :: "glenum option \<Rightarrow> bool" where
  "truthy_target t = (case t of None \<Rightarrow> False | Some n \<Rightarrow> n \<noteq> 0)"

text \<open>
  \<^verbatim>\<open>
  static isSupported(gl, opts = []) {
    const webgl2 = isWebGL2(gl);
    const hasTimerQuery = hasFeatures(gl, FEATURES.TIMER_QUERY);
    let supported = webgl2 || hasTimerQuery;
    for (const key of opts) {
      switch (key) {
        case 'queries': supported = supported && webgl2; break;
        case 'timers': supported = supported && hasTimerQuery; break;
        case 'timestamps':
          const queryCounterBits = hasTimerQuery
            ? gl.getQuery(GL_TIMESTAMP_EXT, GL_QUERY_COUNTER_BITS_EXT) : 0;
          supported = supported && queryCounterBits > 0;
          break;
        default: assert(false);
      }
    }
    return supported;
  }
  \<close>
  The loop is the recursion on \<open>opts\<close>, with \<open>supported\<close> and the context passed along;
  a failed assertion leaves the loop at once.
\<close>

fun isSupported_loop ::
  "bool \<Rightarrow> bool \<Rightarrow> string list \<Rightarrow> bool \<Rightarrow> gl_context \<Rightarrow> error + bool \<times> gl_context" where
  "isSupported_loop w2 tq [] supported g = Inr (supported, g)"
| "isSupported_loop w2 tq (key # keys) supported g =
     (if key = ''queries'' then isSupported_loop w2 tq keys (supported \<and> w2) g
      else if key = ''timers'' then isSupported_loop w2 tq keys (supported \<and> tq) g
      else if key = ''timestamps'' then
        (case (if tq then gl_getQuery GL_TIMESTAMP_EXT GL_QUERY_COUNTER_BITS_EXT g else (0, g)) of
           (queryCounterBits, g1) \<Rightarrow>
             isSupported_loop w2 tq keys (supported \<and> queryCounterBits > 0) g1)
      else (case assert False of
              Inl e \<Rightarrow> Inl e
            | Inr _ \<Rightarrow> isSupported_loop w2 tq keys supported g))"

definition Query_isSupported :: "gl_context \<Rightarrow> string list \<Rightarrow> error + bool \<times> gl_context" where
  "Query_isSupported g opts =
     (let w2 = webgl2 g; hasTimerQuery = timerQuery g
      in isSupported_loop w2 hasTimerQuery opts (w2 \<or> hasTimerQuery) g)"

text \<open>
  \<^verbatim>\<open>
  begin(target) {
    if (this.queryPending) { return this; }
    queryManager.beginQuery(this, this.onComplete, this.onError);
    this.target = target;
    try { this.gl.beginQuery(this.target, this.handle); }
    catch (error) { queryManager.rejectQuery(this, 'Query not supported'); }
    return this;
  }
  \<close>
  A method returns the updated \<open>this\<close> together with the updated environment.
\<close>

definition Query_begin :: "glenum \<Rightarrow> query \<Rightarrow> env \<Rightarrow> query \<times> env" where
  "Query_begin tgt q w =
     (if queryPending q then (q, w)
      else
        let w1 = beginQuery (qid q) QueryClass (onComplete q) (onError q) w;
            q1 = q\<lparr>target := Some tgt\<rparr>;
            w2 = w1\<lparr>gl := gl_log (GlBeginQuery tgt (handle q1)) (gl w1)\<rparr>
        in if beginQueryThrows (gl w1) tgt (handle q1)
           then (q1, rejectQuery (qid q1) ''Query not supported'' w2)
           else (q1, w2))"

definition Query_beginTimeElapsedQuery :: "query \<Rightarrow> env \<Rightarrow> query \<times> env" where
  "Query_beginTimeElapsedQuery q w = Query_begin GL_TIME_ELAPSED_EXT q w"

definition Query_beginOcclusionQuery :: "bool \<Rightarrow> query \<Rightarrow> env \<Rightarrow> query \<times> env" where
  "Query_beginOcclusionQuery conservative q w =
     Query_begin (if conservative then GL_ANY_SAMPLES_PASSED_CONSERVATIVE
                  else GL_ANY_SAMPLES_PASSED) q w"

definition Query_beginTransformFeedbackQuery :: "query \<Rightarrow> env \<Rightarrow> query \<times> env" where
  "Query_beginTransformFeedbackQuery q w =
     Query_begin GL_TRANSFORM_FEEDBACK_PRIMITIVES_WRITTEN q w"

text \<open>
  \<^verbatim>\<open>
  getTimestamp() {
    queryManager.beginQuery(this, this.onComplete, this.onError);
    try { this.gl.queryCounter(this.handle, GL_TIMESTAMP_EXT); }
    catch (error) { queryManager.rejectQuery(this, ERR_TIMER_QUERY_NOT_SUPPORTED); }
    return this;
  }
  \<close>
\<close>

definition Query_getTimestamp :: "query \<Rightarrow> env \<Rightarrow> query \<times> env" where
  "Query_getTimestamp q w =
     (let w1 = beginQuery (qid q) QueryClass (onComplete q) (onError q) w;
          w2 = w1\<lparr>gl := gl_log (GlQueryCounter (handle q) GL_TIMESTAMP_EXT) (gl w1)\<rparr>
      in if queryCounterThrows (gl w1) (handle q) GL_TIMESTAMP_EXT
         then (q, rejectQuery (qid q) ERR_TIMER_QUERY_NOT_SUPPORTED w2)
         else (q, w2))"

text \<open>
  \<^verbatim>\<open>
  end() {
    if (this.queryPending) { return this; }
    if (this.target) {
      this.gl.endQuery(this.target);
      this.target = null;
      this.queryPending = true;
    }
    return this;
  }
  \<close>
\<close>

definition Query_end :: "query \<Rightarrow> env \<Rightarrow> query \<times> env" where
  "Query_end q w =
     (if queryPending q then (q, w)
      else if truthy_target (target q)
      then (case target q of
              Some t \<Rightarrow>
                (q\<lparr>target := None, queryPending := True\<rparr>,
                 w\<lparr>gl := gl_log (GlEndQuery t) (gl w)\<rparr>)
            | None \<Rightarrow> (q, w))
      else (q, w))"

text \<open>
  \<^verbatim>\<open>
  cancel() {
    this.end();
    queryManager.cancelQuery(this);
    return this;
  }
  \<close>
\<close>

definition Query_cancel :: "query \<Rightarrow> env \<Rightarrow> query \<times> env" where
  "Query_cancel q w = (case Query_end q w of (q1, w1) \<Rightarrow> (q1, cancelQuery (qid q1) w1))"

text \<open>
  \<^verbatim>\<open>
  isResultAvailable() {
    if (!this.queryPending) { return false; }
    const resultAvailable = this.gl.getQueryParameter(this.handle, GL_QUERY_RESULT_AVAILABLE);
    if (resultAvailable) { this.queryPending = false; }
    return resultAvailable;
  }
  \<close>
  The returned triple is the result, the updated \<open>this\<close> and the updated environment.
\<close>

definition Query_isResultAvailable :: "query \<Rightarrow> env \<Rightarrow> bool \<times> query \<times> env" where
  "Query_isResultAvailable q w =
     (if \<not> queryPending q then (False, q, w)
      else case gl_getQueryParameter_AVAILABLE (handle q) (gl w) of
             (available, g) \<Rightarrow>
               (available, (if available then q\<lparr>queryPending := False\<rparr> else q), w\<lparr>gl := g\<rparr>))"




text \<open>\<^verbatim>\<open>static poll(gl) { queryManager.poll(gl); }\<close>\<close>

definition Query_poll :: "env \<Rightarrow> env" where
  "Query_poll w = poll w"

text \<open>
  The states a \<open>Query\<close> object can be in: the one the constructor leaves, and those the
  methods lead to, in any environment.
\<close>

inductive_set reachable :: "query set" where
  r_new: "Query_new i h onC onE \<in> reachable"
| r_begin: "q \<in> reachable \<Longrightarrow> fst (Query_begin tgt q w) \<in> reachable"
| r_getTimestamp: "q \<in> reachable \<Longrightarrow> fst (Query_getTimestamp q w) \<in> reachable"
| r_end: "q \<in> reachable \<Longrightarrow> fst (Query_end q w) \<in> reachable"
| r_cancel: "q \<in> reachable \<Longrightarrow> fst (Query_cancel q w) \<in> reachable"
| r_isResultAvailable: "q \<in> reachable \<Longrightarrow> fst (snd (Query_isResultAvailable q w)) \<in> reachable"

text \<open>
  The two properties of the manager that the sweep of \<open>poll\<close> relies on: the registration
  made when the module was loaded is the only one, and no query object has two pending
  entries (\<open>pendingQueries\<close> is a set of query objects).
\<close>

definition manager_ok :: "env \<Rightarrow> bool" where
  "manager_ok w \<longleftrightarrow>
     invalidators (queryManager w) = [Query_invalidator] \<and> distinct (map e_query (pending w))"

section \<open>A concrete context\<close>

text \<open>
  A WebGL2 context with the timer extension on which no call throws and nothing is
  available yet, the manager as it is after the module of \<open>Query\<close> was loaded, and two
  query objects. The theorems below are instantiated at them.
\<close>

definition gl0 :: gl_context where
  "gl0 = \<lparr>webgl2 = True, timerQuery = True, counterBits = 64,
          beginQueryThrows = (\<lambda>tgt h. False), queryCounterThrows = (\<lambda>h tgt. False),
          resultAvailable = (\<lambda>h. False), gpuDisjoint = False, calls = []\<rparr>"

definition env0 :: env where
  "env0 = \<lparr>gl = gl0, queryManager = loadedManager, callbacks = []\<rparr>"

definition queryA :: query where
  "queryA = Query_new 1 (Some 1) 10 11"

definition queryB :: query where
  "queryB = Query_new 2 (Some 2) 20 21"

text \<open>
  Query A after \<open>beginTimeElapsedQuery()\<close>, then after \<open>end()\<close>; and the environment in
  which the hardware then reports the result of every query as available.
\<close>

definition beganA :: "query \<times> env" where
  "beganA = Query_beginTimeElapsedQuery queryA env0"

definition endedA :: "query \<times> env" where
  "endedA = Query_end (fst beganA) (snd beganA)"

definition nowAvailable :: "env \<Rightarrow> env" where
  "nowAvailable w = w\<lparr>gl := (gl w)\<lparr>resultAvailable := (\<lambda>h. True)\<rparr>\<rparr>"

text \<open>
  Queries A and B both begun and ended, one after the other, and then a disjoint event
  of the GPU.
\<close>

definition endedAB :: env where
  "endedAB =
     (case Query_beginTimeElapsedQuery queryB (snd endedA) of
        (qB, w) \<Rightarrow> snd (Query_end qB w))"

definition nowDisjoint :: "env \<Rightarrow> env" where
  "nowDisjoint w = w\<lparr>gl := (gl w)\<lparr>gpuDisjoint := True\<rparr>\<rparr>"

lemmas manager_defs =
  request_def set_pending_def pending_def beginQuery_def rejectQuery_def cancelQuery_def
  setInvalidator_def emptyManager_def loadedManager_def Query_invalidator_def

lemmas example_defs =
  gl0_def env0_def queryA_def queryB_def Query_new_def beganA_def endedA_def nowAvailable_def
  endedAB_def nowDisjoint_def Query_beginTimeElapsedQuery_def

lemmas query_defs =
  Query_begin_def Query_end_def Query_cancel_def Query_isResultAvailable_def
  Query_getTimestamp_def gl_log_def gl_getQueryParameter_AVAILABLE_def truthy_target_def
  GL_TIME_ELAPSED_EXT_def GL_ANY_SAMPLES_PASSED_def GL_QUERY_RESULT_AVAILABLE_def Let_def

section \<open>\<open>Group.add\<close> flattens its arguments\<close>

text \<open>
  Claim C10. For every group and every argument list mixing nodes and arbitrarily nested
  arrays of nodes, \<open>add\<close> appends exactly the non-array leaves to the children, in
  depth-first left-to-right order; the children that were there stay in place in front
  of them, and the returned object is the group itself: no other field changes.
\<close>

theorem Group_add_appends_leaves:
  "add cs g = g\<lparr>children := children g @ concat (map leaves cs)\<rparr>"
  by (induction cs g rule: add.induct) simp_all

section \<open>\<open>setNeedsRedraw\<close> keeps the first reason\<close>

lemma setNeedsRedraw_idempotent:
  "setNeedsRedraw v al = Inr al' \<Longrightarrow> setNeedsRedraw v al' = Inr al'"
  by (auto simp: setNeedsRedraw_def assert_def js_or_def split: if_splits)

text \<open>
  Claim C9, as stated, fails for the empty reason. The empty string is a non-null string
  and passes the assertion, so \<open>setNeedsRedraw('')\<close> on a fresh loop stores it; but it is
  falsy, so the next \<open>setNeedsRedraw('resize')\<close> replaces it.
\<close>

theorem setNeedsRedraw_empty_reason_replaced:
  "setNeedsRedraw (JStr []) \<lparr>needsRedraw = JNull\<rparr> = Inr \<lparr>needsRedraw = JStr []\<rparr> \<and>
   setNeedsRedraw (JStr ''resize'') \<lparr>needsRedraw = JStr []\<rparr>
     = Inr \<lparr>needsRedraw = JStr ''resize''\<rparr> \<and>
   setNeedsRedraw (JStr ''resize'') \<lparr>needsRedraw = JStr []\<rparr>
     \<noteq> Inr \<lparr>needsRedraw = JStr []\<rparr>"
  by (simp add: setNeedsRedraw_def assert_def js_or_def)

text \<open>
  Claim C9, amended. For every animation loop whose \<open>needsRedraw\<close> field holds a
  non-empty reason string, a later \<open>setNeedsRedraw\<close> with any string leaves the loop
  unchanged and returns it (so a second such call does the same); the reason is kept
  until \<open>_clearNeedsRedraw\<close> resets the field, after which the next reason is stored.
  An argument that is not a string fails the assertion.
\<close>

theorem setNeedsRedraw_keeps_first_reason:
  assumes "needsRedraw al = JStr r" and "r \<noteq> []"
  shows "setNeedsRedraw (JStr r2) al = Inr al \<and>
         (\<forall>al'. setNeedsRedraw (JStr r2) al = Inr al' \<longrightarrow> setNeedsRedraw (JStr r2) al' = Inr al') \<and>
         (\<forall>v. typeof v \<noteq> ''string'' \<longrightarrow> setNeedsRedraw v al = Inl AssertionFailed) \<and>
         setNeedsRedraw (JStr r2) (clearNeedsRedraw al) = Inr (al\<lparr>needsRedraw := JStr r2\<rparr>)"
  using assms by (simp add: setNeedsRedraw_def assert_def js_or_def clearNeedsRedraw_def)

theorem setNeedsRedraw_keeps_first_reason_witness:
  "needsRedraw \<lparr>needsRedraw = JStr ''drawing buffer resized''\<rparr> = JStr ''drawing buffer resized'' \<and>
   ''drawing buffer resized'' \<noteq> [] \<and>
   setNeedsRedraw (JStr ''drawing buffer aspect changed'')
       \<lparr>needsRedraw = JStr ''drawing buffer resized''\<rparr>
     = Inr \<lparr>needsRedraw = JStr ''drawing buffer resized''\<rparr> \<and>
   setNeedsRedraw (JNum 1) \<lparr>needsRedraw = JStr ''drawing buffer resized''\<rparr> = Inl AssertionFailed"
proof -
  have h1: "needsRedraw \<lparr>needsRedraw = JStr ''drawing buffer resized''\<rparr>
              = JStr ''drawing buffer resized''"
    by simp
  have h2: "''drawing buffer resized'' \<noteq> []" by simp
  from setNeedsRedraw_keeps_first_reason [OF h1 h2, of "''drawing buffer aspect changed''"]
  have "setNeedsRedraw (JStr ''drawing buffer aspect changed'')
            \<lparr>needsRedraw = JStr ''drawing buffer resized''\<rparr>
          = Inr \<lparr>needsRedraw = JStr ''drawing buffer resized''\<rparr>"
    and "typeof (JNum 1) \<noteq> ''string'' \<longrightarrow>
         setNeedsRedraw (JNum 1) \<lparr>needsRedraw = JStr ''drawing buffer resized''\<rparr>
           = Inl AssertionFailed"
    by blast+
  then show ?thesis by simp
qed

section \<open>\<open>Query.isSupported\<close>\<close>

lemma counterBits_gl_log [simp]: "counterBits (gl_log c g) = counterBits g"
  by (simp add: gl_log_def)

lemma loop_queries:
  "isSupported_loop w2 tq (''queries'' # keys) s g = isSupported_loop w2 tq keys (s \<and> w2) g"
  by simp

lemma loop_timers:
  "isSupported_loop w2 tq (''timers'' # keys) s g = isSupported_loop w2 tq keys (s \<and> tq) g"
  by simp

lemma loop_timestamps:
  "isSupported_loop w2 tq (''timestamps'' # keys) s g =
     (if tq then isSupported_loop w2 tq keys (s \<and> counterBits g > 0)
                  (gl_log (GlGetQuery GL_TIMESTAMP_EXT GL_QUERY_COUNTER_BITS_EXT) g)
      else isSupported_loop w2 tq keys False g)"
  by (simp add: gl_getQuery_def)

lemma loop_other:
  "key \<noteq> ''queries'' \<Longrightarrow> key \<noteq> ''timers'' \<Longrightarrow> key \<noteq> ''timestamps'' \<Longrightarrow>
   isSupported_loop w2 tq (key # keys) s g = Inl AssertionFailed"
  by (simp add: assert_def)

lemma loop_recognized:
  "\<forall>key\<in>set keys. key = ''queries'' \<or> key = ''timers'' \<or> key = ''timestamps'' \<Longrightarrow>
   \<exists>g'. isSupported_loop w2 tq keys s g =
          Inr (s \<and> (''queries'' \<in> set keys \<longrightarrow> w2) \<and> (''timers'' \<in> set keys \<longrightarrow> tq) \<and>
               (''timestamps'' \<in> set keys \<longrightarrow> tq \<and> counterBits g > 0), g') \<and>
        counterBits g' = counterBits g"
proof (induction keys arbitrary: s g)
  case Nil
  then show ?case by simp
next
  case (Cons key keys)
  from Cons.prems
  have rest: "\<forall>key\<in>set keys. key = ''queries'' \<or> key = ''timers'' \<or> key = ''timestamps''"
    by simp
  from Cons.prems have "key = ''queries'' \<or> key = ''timers'' \<or> key = ''timestamps''"
    by simp
  then consider (q) "key = ''queries''" | (t) "key = ''timers''" | (ts) "key = ''timestamps''"
    by blast
  then show ?case
  proof cases
    case q
    from Cons.IH [OF rest, of "s \<and> w2" g] obtain g' where
      "isSupported_loop w2 tq keys (s \<and> w2) g =
         Inr ((s \<and> w2) \<and> (''queries'' \<in> set keys \<longrightarrow> w2) \<and> (''timers'' \<in> set keys \<longrightarrow> tq) \<and>
              (''timestamps'' \<in> set keys \<longrightarrow> tq \<and> counterBits g > 0), g')"
      "counterBits g' = counterBits g" by blast
    then show ?thesis
      unfolding q loop_queries by (intro exI [of _ g']) (simp, blast)
  next
    case t
    from Cons.IH [OF rest, of "s \<and> tq" g] obtain g' where
      "isSupported_loop w2 tq keys (s \<and> tq) g =
         Inr ((s \<and> tq) \<and> (''queries'' \<in> set keys \<longrightarrow> w2) \<and> (''timers'' \<in> set keys \<longrightarrow> tq) \<and>
              (''timestamps'' \<in> set keys \<longrightarrow> tq \<and> counterBits g > 0), g')"
      "counterBits g' = counterBits g" by blast
    then show ?thesis
      unfolding t loop_timers by (intro exI [of _ g']) (simp, blast)
  next
    case ts
    show ?thesis
    proof (cases tq)
      case True
      let ?g1 = "gl_log (GlGetQuery GL_TIMESTAMP_EXT GL_QUERY_COUNTER_BITS_EXT) g"
      from Cons.IH [OF rest, of "s \<and> counterBits g > 0" ?g1] obtain g' where
        "isSupported_loop w2 tq keys (s \<and> counterBits g > 0) ?g1 =
           Inr ((s \<and> counterBits g > 0) \<and> (''queries'' \<in> set keys \<longrightarrow> w2) \<and>
                (''timers'' \<in> set keys \<longrightarrow> tq) \<and>
                (''timestamps'' \<in> set keys \<longrightarrow> tq \<and> counterBits g > 0), g')"
        "counterBits g' = counterBits g" by auto
      then show ?thesis
        unfolding ts loop_timestamps using True by (intro exI [of _ g']) (simp, blast)
    next
      case False
      from Cons.IH [OF rest, of False g] obtain g' where
        "isSupported_loop w2 tq keys False g = Inr (False, g')"
        "counterBits g' = counterBits g" by auto
      then show ?thesis
        unfolding ts loop_timestamps using False by (intro exI [of _ g']) simp
    qed
  qed
qed

lemma loop_unrecognized:
  "\<exists>key\<in>set keys. key \<noteq> ''queries'' \<and> key \<noteq> ''timers'' \<and> key \<noteq> ''timestamps'' \<Longrightarrow>
   isSupported_loop w2 tq keys s g = Inl AssertionFailed"
proof (induction keys arbitrary: s g)
  case Nil
  then show ?case by simp
next
  case (Cons key keys)
  show ?case
  proof (cases "key \<noteq> ''queries'' \<and> key \<noteq> ''timers'' \<and> key \<noteq> ''timestamps''")
    case True
    then show ?thesis by (intro loop_other) simp_all
  next
    case False
    with Cons.prems
    have rest: "\<exists>key\<in>set keys. key \<noteq> ''queries'' \<and> key \<noteq> ''timers'' \<and> key \<noteq> ''timestamps''"
      by auto
    from False consider (q) "key = ''queries''" | (t) "key = ''timers''" | (ts) "key = ''timestamps''"
      by blast
    then show ?thesis
    proof cases
      case q
      show ?thesis unfolding q loop_queries by (rule Cons.IH [OF rest])
    next
      case t
      show ?thesis unfolding t loop_timers by (rule Cons.IH [OF rest])
    next
      case ts
      show ?thesis unfolding ts loop_timestamps by (simp only: Cons.IH [OF rest] if_cancel)
    qed
  qed
qed

text \<open>
  Claim C7. For every capability list: if every key is one of \<open>'queries'\<close>, \<open>'timers'\<close>,
  \<open>'timestamps'\<close>, the call returns (it does not throw) and its result is the initial
  value \<open>webgl2 || hasTimerQuery\<close> narrowed by one conjunct for each key that occurs,
  \<open>'timestamps'\<close> asking for the timer extension and a positive counter bit width; if the
  list contains any other string, the call fails the assertion instead of returning
  false.
\<close>

theorem Query_isSupported_keys:
  "(if \<forall>key\<in>set opts. key = ''queries'' \<or> key = ''timers'' \<or> key = ''timestamps''
    then \<exists>g'. Query_isSupported g opts =
           Inr ((webgl2 g \<or> timerQuery g) \<and>
                (''queries'' \<in> set opts \<longrightarrow> webgl2 g) \<and>
                (''timers'' \<in> set opts \<longrightarrow> timerQuery g) \<and>
                (''timestamps'' \<in> set opts \<longrightarrow> timerQuery g \<and> counterBits g > 0), g')
    else Query_isSupported g opts = Inl AssertionFailed)"
proof (cases "\<forall>key\<in>set opts. key = ''queries'' \<or> key = ''timers'' \<or> key = ''timestamps''")
  case True
  from loop_recognized [OF True, of "webgl2 g" "timerQuery g" "webgl2 g \<or> timerQuery g" g]
  obtain g' where
    "isSupported_loop (webgl2 g) (timerQuery g) opts (webgl2 g \<or> timerQuery g) g =
       Inr ((webgl2 g \<or> timerQuery g) \<and>
            (''queries'' \<in> set opts \<longrightarrow> webgl2 g) \<and>
            (''timers'' \<in> set opts \<longrightarrow> timerQuery g) \<and>
            (''timestamps'' \<in> set opts \<longrightarrow> timerQuery g \<and> counterBits g > 0), g')"
    by blast
  then show ?thesis
    unfolding if_P [OF True]
    by (intro exI [of _ g']) (simp add: Query_isSupported_def Let_def)
next
  case False
  then have "\<exists>key\<in>set opts. key \<noteq> ''queries'' \<and> key \<noteq> ''timers'' \<and> key \<noteq> ''timestamps''"
    by blast
  from loop_unrecognized [OF this]
  show ?thesis
    unfolding if_not_P [OF False]
    by (simp add: Query_isSupported_def Let_def)
qed

theorem Query_isSupported_keys_witness:
  "(\<exists>g'. Query_isSupported gl0 [''timers'', ''timestamps''] = Inr (True, g')) \<and>
   (\<exists>g'. Query_isSupported (gl0\<lparr>counterBits := 0\<rparr>) [''timers'', ''timestamps''] = Inr (False, g')) \<and>
   Query_isSupported gl0 [''timers'', ''seconds''] = Inl AssertionFailed"
  using Query_isSupported_keys [of "[''timers'', ''timestamps'']" gl0]
    Query_isSupported_keys [of "[''timers'', ''timestamps'']" "gl0\<lparr>counterBits := 0\<rparr>"]
    Query_isSupported_keys [of "[''timers'', ''seconds'']" gl0]
  by (simp add: gl0_def)

section \<open>The \<open>Query\<close> state machine\<close>

lemma beganA_eval:
  "beganA =
     (queryA\<lparr>target := Some GL_TIME_ELAPSED_EXT\<rparr>,
      env0\<lparr>gl := gl0\<lparr>calls := [GlBeginQuery GL_TIME_ELAPSED_EXT (Some 1)]\<rparr>,
           queryManager := loadedManager
             \<lparr>pendingQueries :=
                 [\<lparr>e_query = 1, e_type = QueryClass, e_onComplete = 10, e_onError = 11\<rparr>],
              requests := requests loadedManager @ [BeginQueryCall 1]\<rparr>\<rparr>)"
  by (simp add: example_defs manager_defs query_defs)

lemma endedA_eval:
  "endedA =
     (queryA\<lparr>queryPending := True\<rparr>,
      (snd beganA)\<lparr>gl := gl0\<lparr>calls := [GlBeginQuery GL_TIME_ELAPSED_EXT (Some 1),
                                        GlEndQuery GL_TIME_ELAPSED_EXT]\<rparr>\<rparr>)"
  by (simp add: example_defs manager_defs query_defs)

lemma GL_targets_truthy:
  "truthy_target (Some GL_TIME_ELAPSED_EXT)"
  "truthy_target (Some GL_ANY_SAMPLES_PASSED)"
  "truthy_target (Some GL_ANY_SAMPLES_PASSED_CONSERVATIVE)"
  "truthy_target (Some GL_TRANSFORM_FEEDBACK_PRIMITIVES_WRITTEN)"
  by (simp_all add: truthy_target_def GL_TIME_ELAPSED_EXT_def GL_ANY_SAMPLES_PASSED_def
        GL_ANY_SAMPLES_PASSED_CONSERVATIVE_def GL_TRANSFORM_FEEDBACK_PRIMITIVES_WRITTEN_def)

text \<open>
  No method leaves an object with an unread result and a target: \<open>end\<close> clears the
  target when it sets \<open>queryPending\<close>, and \<open>begin\<close> does nothing while it is set.
\<close>

lemma reachable_pending_no_target:
  "q \<in> reachable \<Longrightarrow> queryPending q \<longrightarrow> target q = None"
  by (induction rule: reachable.induct)
     (auto simp: Query_new_def Query_begin_def Query_getTimestamp_def Query_end_def
        Query_cancel_def Query_isResultAvailable_def gl_getQueryParameter_AVAILABLE_def Let_def
        split: if_splits option.splits prod.splits)

text \<open>
  Claim C3. For every query whose \<open>queryPending\<close> flag is true, \<open>begin(target)\<close> returns
  the same object with its state unchanged (\<open>target\<close> and \<open>queryPending\<close> included), and
  the environment is unchanged: the manager has received no call and no call of the
  context was made.
\<close>

theorem Query_begin_pending_noop:
  "queryPending q \<Longrightarrow> Query_begin tgt q w = (q, w)"
  by (simp add: Query_begin_def)

theorem Query_begin_pending_noop_witness:
  "queryPending (fst endedA) \<and>
   Query_begin GL_ANY_SAMPLES_PASSED (fst endedA) (snd endedA) = endedA"
proof -
  have h: "queryPending (fst endedA)" by (simp add: endedA_eval)
  from Query_begin_pending_noop [OF h, of GL_ANY_SAMPLES_PASSED "snd endedA"]
  show ?thesis using h by simp
qed

text \<open>
  Claim C4. \<open>isResultAvailable()\<close> returns false with the object and the environment
  unchanged (no call of the context) when \<open>queryPending\<close> is false. When it is true, the
  call asks the context for \<open>GL_QUERY_RESULT_AVAILABLE\<close> and returns the answer; if the
  answer is true it clears \<open>queryPending\<close>, so that a call following it, in whatever
  environment, returns false.
\<close>

theorem Query_isResultAvailable_polls_once:
  "(\<not> queryPending q \<longrightarrow> Query_isResultAvailable q w = (False, q, w)) \<and>
   (queryPending q \<longrightarrow>
      Query_isResultAvailable q w =
        (resultAvailable (gl w) (handle q),
         (if resultAvailable (gl w) (handle q) then q\<lparr>queryPending := False\<rparr> else q),
         w\<lparr>gl := gl_log (GlGetQueryParameter (handle q) GL_QUERY_RESULT_AVAILABLE) (gl w)\<rparr>)) \<and>
   (queryPending q \<and> resultAvailable (gl w) (handle q) \<longrightarrow>
      (case Query_isResultAvailable q w of
         (r, q', w') \<Rightarrow> r \<and> \<not> queryPending q' \<and>
            (\<forall>w''. Query_isResultAvailable q' w'' = (False, q', w''))))"
  by (simp add: Query_isResultAvailable_def gl_getQueryParameter_AVAILABLE_def)

theorem Query_isResultAvailable_polls_once_witness:
  "Query_isResultAvailable queryA env0 = (False, queryA, env0) \<and>
   fst (Query_isResultAvailable (fst endedA) (snd endedA)) = False \<and>
   (case Query_isResultAvailable (fst endedA) (nowAvailable (snd endedA)) of
      (r, q', w') \<Rightarrow> r \<and> \<not> queryPending q' \<and> Query_isResultAvailable q' w' = (False, q', w'))"
proof -
  have a: "\<not> queryPending queryA" by (simp add: queryA_def Query_new_def)
  have b: "queryPending (fst endedA)" by (simp add: endedA_eval)
  have c: "\<not> resultAvailable (gl (snd endedA)) (handle (fst endedA))"
    by (simp add: endedA_eval gl0_def)
  have d: "resultAvailable (gl (nowAvailable (snd endedA))) (handle (fst endedA))"
    by (simp add: nowAvailable_def)
  from Query_isResultAvailable_polls_once [of queryA env0] a
  have 1: "Query_isResultAvailable queryA env0 = (False, queryA, env0)" by blast
  from Query_isResultAvailable_polls_once [of "fst endedA" "snd endedA"] b c
  have 2: "fst (Query_isResultAvailable (fst endedA) (snd endedA)) = False" by simp
  from Query_isResultAvailable_polls_once [of "fst endedA" "nowAvailable (snd endedA)"] b d
  have 3: "case Query_isResultAvailable (fst endedA) (nowAvailable (snd endedA)) of
      (r, q', w') \<Rightarrow> r \<and> \<not> queryPending q' \<and> Query_isResultAvailable q' w' = (False, q', w')"
    by (auto split: prod.splits)
  from 1 2 3 show ?thesis by blast
qed

text \<open>
  Claim C5. For every query with \<open>queryPending\<close> false: \<open>end()\<close> with no open interval
  (\<open>target\<close> is \<open>null\<close>, or falsy at all) changes nothing, so \<open>queryPending\<close> stays
  false; \<open>end()\<close> with an open interval (\<open>target\<close> set, as the source tests it) issues
  \<open>gl.endQuery(target)\<close>, clears \<open>target\<close> and sets \<open>queryPending\<close>. In both cases the
  same object is returned and neither the manager nor the callbacks are touched.
\<close>

theorem Query_end_closes_interval:
  assumes "\<not> queryPending q"
  shows "(target q = None \<longrightarrow> Query_end q w = (q, w)) \<and>
         (\<not> truthy_target (target q) \<longrightarrow> Query_end q w = (q, w)) \<and>
         (\<forall>t. target q = Some t \<and> truthy_target (target q) \<longrightarrow>
            Query_end q w = (q\<lparr>target := None, queryPending := True\<rparr>,
                             w\<lparr>gl := gl_log (GlEndQuery t) (gl w)\<rparr>)) \<and>
         qid (fst (Query_end q w)) = qid q \<and>
         queryManager (snd (Query_end q w)) = queryManager w \<and>
         callbacks (snd (Query_end q w)) = callbacks w"
  using assms by (auto simp: Query_end_def truthy_target_def split: option.splits)

theorem Query_end_closes_interval_witness:
  "\<not> queryPending queryA \<and> target queryA = None \<and> Query_end queryA env0 = (queryA, env0) \<and>
   \<not> queryPending (fst beganA) \<and> target (fst beganA) = Some GL_TIME_ELAPSED_EXT \<and>
   truthy_target (target (fst beganA)) \<and>
   Query_end (fst beganA) (snd beganA)
     = ((fst beganA)\<lparr>target := None, queryPending := True\<rparr>,
        (snd beganA)\<lparr>gl := gl_log (GlEndQuery GL_TIME_ELAPSED_EXT) (gl (snd beganA))\<rparr>)"
proof -
  have a: "\<not> queryPending queryA" "target queryA = None"
    by (simp_all add: queryA_def Query_new_def)
  have b: "\<not> queryPending (fst beganA)" "target (fst beganA) = Some GL_TIME_ELAPSED_EXT"
    by (simp_all add: beganA_eval queryA_def Query_new_def)
  have c: "truthy_target (target (fst beganA))"
    by (simp add: b GL_targets_truthy)
  from Query_end_closes_interval [OF a(1), of env0] a(2)
  have 1: "Query_end queryA env0 = (queryA, env0)" by blast
  from Query_end_closes_interval [OF b(1), of "snd beganA"] b(2) c
  have 2: "Query_end (fst beganA) (snd beganA)
     = ((fst beganA)\<lparr>target := None, queryPending := True\<rparr>,
        (snd beganA)\<lparr>gl := gl_log (GlEndQuery GL_TIME_ELAPSED_EXT) (gl (snd beganA))\<rparr>)"
    by blast
  from a b c 1 2 show ?thesis by blast
qed


text \<open>
  Claim C6. For every query with an open interval (a target is set; by
  \<open>reachable_pending_no_target\<close> no result is pending then), \<open>cancel()\<close> first performs
  \<open>end()\<close>, which issues \<open>gl.endQuery(target)\<close>, clears \<open>target\<close> and sets
  \<open>queryPending\<close>, and then has the manager drop the entry of the query: the entry is
  gone from the pending set, the other entries stay, and no callback is invoked. The
  same object is returned.
\<close>

theorem Query_cancel_open_interval:
  assumes "q \<in> reachable" and "target q = Some t" and "truthy_target (target q)"
  shows "Query_cancel q w = (case Query_end q w of (q1, w1) \<Rightarrow> (q1, cancelQuery (qid q1) w1)) \<and>
         Query_end q w = (q\<lparr>target := None, queryPending := True\<rparr>,
                          w\<lparr>gl := gl_log (GlEndQuery t) (gl w)\<rparr>) \<and>
         fst (Query_cancel q w) = q\<lparr>target := None, queryPending := True\<rparr> \<and>
         calls (gl (snd (Query_cancel q w))) = calls (gl w) @ [GlEndQuery t] \<and>
         pending (snd (Query_cancel q w)) = filter (\<lambda>e. e_query e \<noteq> qid q) (pending w) \<and>
         qid q \<notin> e_query ` set (pending (snd (Query_cancel q w))) \<and>
         callbacks (snd (Query_cancel q w)) = callbacks w"
proof -
  from reachable_pending_no_target [OF assms(1)] assms(2) have np: "\<not> queryPending q" by auto
  have e: "Query_end q w = (q\<lparr>target := None, queryPending := True\<rparr>,
                          w\<lparr>gl := gl_log (GlEndQuery t) (gl w)\<rparr>)"
    using np assms(2,3) by (simp add: Query_end_def)
  show ?thesis
    by (auto simp: Query_cancel_def e cancelQuery_def request_def set_pending_def pending_def
          gl_log_def Let_def)
qed

theorem Query_cancel_open_interval_witness:
  "fst beganA \<in> reachable \<and> target (fst beganA) = Some GL_TIME_ELAPSED_EXT \<and>
   truthy_target (target (fst beganA)) \<and>
   pending (snd beganA) = [\<lparr>e_query = 1, e_type = QueryClass, e_onComplete = 10, e_onError = 11\<rparr>] \<and>
   fst (Query_cancel (fst beganA) (snd beganA)) = queryA\<lparr>queryPending := True\<rparr> \<and>
   calls (gl (snd (Query_cancel (fst beganA) (snd beganA))))
     = [GlBeginQuery GL_TIME_ELAPSED_EXT (Some 1), GlEndQuery GL_TIME_ELAPSED_EXT] \<and>
   pending (snd (Query_cancel (fst beganA) (snd beganA))) = [] \<and>
   callbacks (snd (Query_cancel (fst beganA) (snd beganA))) = []"
proof -
  have r: "fst beganA \<in> reachable"
    unfolding beganA_def Query_beginTimeElapsedQuery_def queryA_def
    by (intro reachable.r_begin reachable.r_new)
  have t: "target (fst beganA) = Some GL_TIME_ELAPSED_EXT"
    by (simp add: beganA_eval)
  have o: "truthy_target (target (fst beganA))"
    by (simp add: t GL_targets_truthy)
  have p: "pending (snd beganA)
             = [\<lparr>e_query = 1, e_type = QueryClass, e_onComplete = 10, e_onError = 11\<rparr>]"
    by (simp add: beganA_eval pending_def env0_def)
  have q: "qid (fst beganA) = 1" "callbacks (snd beganA) = []"
    "calls (gl (snd beganA)) = [GlBeginQuery GL_TIME_ELAPSED_EXT (Some 1)]"
    by (simp_all add: beganA_eval env0_def queryA_def Query_new_def gl0_def)
  have f: "(fst beganA)\<lparr>target := None, queryPending := True\<rparr> = queryA\<lparr>queryPending := True\<rparr>"
    by (simp add: beganA_eval queryA_def Query_new_def)
  from Query_cancel_open_interval [OF r t o, of "snd beganA"]
  have "fst (Query_cancel (fst beganA) (snd beganA))
          = (fst beganA)\<lparr>target := None, queryPending := True\<rparr>"
    and "calls (gl (snd (Query_cancel (fst beganA) (snd beganA))))
          = calls (gl (snd beganA)) @ [GlEndQuery GL_TIME_ELAPSED_EXT]"
    and "pending (snd (Query_cancel (fst beganA) (snd beganA)))
          = filter (\<lambda>e. e_query e \<noteq> qid (fst beganA)) (pending (snd beganA))"
    and "callbacks (snd (Query_cancel (fst beganA) (snd beganA))) = callbacks (snd beganA)"
    by blast+
  then show ?thesis using r t o p by (simp add: q f)
qed

text \<open>
  Claim C2, as stated, fails. Between \<open>begin\<close> and \<open>end\<close> the flag \<open>queryPending\<close> is
  false, so the guard of \<open>begin\<close> does not apply. On query A with a time-elapsed interval
  open, \<open>begin\<close> with the occlusion target replaces the target; \<open>begin\<close> with the same
  target leaves the object as it is but calls the manager and \<open>gl.beginQuery\<close> again.
\<close>

theorem Query_begin_twice_not_noop:
  "\<not> queryPending queryA \<and>
   Query_begin GL_TIME_ELAPSED_EXT queryA env0 = beganA \<and>
   target (fst beganA) = Some GL_TIME_ELAPSED_EXT \<and>
   target (fst (Query_begin GL_ANY_SAMPLES_PASSED (fst beganA) (snd beganA)))
     = Some GL_ANY_SAMPLES_PASSED \<and>
   GL_ANY_SAMPLES_PASSED \<noteq> GL_TIME_ELAPSED_EXT \<and>
   Query_begin GL_TIME_ELAPSED_EXT (fst beganA) (snd beganA) \<noteq> beganA \<and>
   calls (gl (snd (Query_begin GL_TIME_ELAPSED_EXT (fst beganA) (snd beganA))))
     = [GlBeginQuery GL_TIME_ELAPSED_EXT (Some 1), GlBeginQuery GL_TIME_ELAPSED_EXT (Some 1)] \<and>
   requests (queryManager (snd (Query_begin GL_TIME_ELAPSED_EXT (fst beganA) (snd beganA))))
     = requests (queryManager (snd beganA)) @ [BeginQueryCall 1]"
proof -
  have a: "\<not> queryPending queryA" by (simp add: queryA_def Query_new_def)
  have b: "Query_begin GL_TIME_ELAPSED_EXT queryA env0 = beganA"
    by (simp add: beganA_def Query_beginTimeElapsedQuery_def)
  have c: "calls (gl (snd (Query_begin GL_TIME_ELAPSED_EXT (fst beganA) (snd beganA))))
     = [GlBeginQuery GL_TIME_ELAPSED_EXT (Some 1), GlBeginQuery GL_TIME_ELAPSED_EXT (Some 1)]"
    by (simp add: beganA_eval example_defs manager_defs query_defs)
  have d: "calls (gl (snd beganA)) = [GlBeginQuery GL_TIME_ELAPSED_EXT (Some 1)]"
    by (simp add: beganA_eval example_defs)
  have e: "Query_begin GL_TIME_ELAPSED_EXT (fst beganA) (snd beganA) \<noteq> beganA"
  proof
    assume "Query_begin GL_TIME_ELAPSED_EXT (fst beganA) (snd beganA) = beganA"
    then have "calls (gl (snd (Query_begin GL_TIME_ELAPSED_EXT (fst beganA) (snd beganA))))
                 = calls (gl (snd beganA))" by simp
    with c d show False by simp
  qed
  have f: "target (fst beganA) = Some GL_TIME_ELAPSED_EXT" by (simp add: beganA_eval)
  have g: "target (fst (Query_begin GL_ANY_SAMPLES_PASSED (fst beganA) (snd beganA)))
     = Some GL_ANY_SAMPLES_PASSED"
    by (simp add: beganA_eval Query_begin_def Let_def queryA_def Query_new_def)
  have h: "GL_ANY_SAMPLES_PASSED \<noteq> GL_TIME_ELAPSED_EXT"
    by (simp add: GL_ANY_SAMPLES_PASSED_def GL_TIME_ELAPSED_EXT_def)
  have i: "requests (queryManager (snd (Query_begin GL_TIME_ELAPSED_EXT (fst beganA) (snd beganA))))
     = requests (queryManager (snd beganA)) @ [BeginQueryCall 1]"
    by (simp add: beganA_eval example_defs manager_defs query_defs)
  from a b c e f g h i show ?thesis by blast
qed

text \<open>
  Claim C2, amended. Let \<open>begin(t1)\<close> have taken effect on a query (\<open>queryPending\<close> was
  false), and let \<open>end()\<close> not have been called. Then \<open>queryPending\<close> is still false and
  the target is \<open>t1\<close>, and a second \<open>begin(t2)\<close> is not a no-op: it calls
  \<open>queryManager.beginQuery\<close> for the query again, sets the target to \<open>t2\<close> and issues
  \<open>gl.beginQuery(t2, handle)\<close> again (followed by \<open>rejectQuery\<close> if that call throws).
  The object itself is unchanged exactly when \<open>t2\<close> is the target already set.
\<close>

theorem Query_begin_again_restarts:
  assumes "\<not> queryPending q0" and "Query_begin t1 q0 w0 = (q1, w1)"
  shows "target q1 = Some t1 \<and> \<not> queryPending q1 \<and>
         fst (Query_begin t2 q1 w) = q1\<lparr>target := Some t2\<rparr> \<and>
         (fst (Query_begin t2 q1 w) = q1 \<longleftrightarrow> t2 = t1) \<and>
         calls (gl (snd (Query_begin t2 q1 w))) = calls (gl w) @ [GlBeginQuery t2 (handle q1)] \<and>
         requests (queryManager (snd (Query_begin t2 q1 w)))
           = requests (queryManager w) @ BeginQueryCall (qid q1) #
             (if beginQueryThrows (gl w) t2 (handle q1)
              then [RejectQueryCall (qid q1) ''Query not supported''] else [])"
proof -
  from assms have q1: "q1 = q0\<lparr>target := Some t1\<rparr>"
    by (auto simp: Query_begin_def Let_def split: if_splits)
  with assms(1) have np: "\<not> queryPending q1" and t: "target q1 = Some t1" by simp_all
  have eq: "(q1\<lparr>target := Some t2\<rparr> = q1) = (t2 = t1)"
  proof
    assume "q1\<lparr>target := Some t2\<rparr> = q1"
    then have "target (q1\<lparr>target := Some t2\<rparr>) = target q1" by simp
    with t show "t2 = t1" by simp
  next
    assume "t2 = t1"
    with q1 show "q1\<lparr>target := Some t2\<rparr> = q1" by simp
  qed
  have rq: "requests (queryManager (rejectQuery q msg v))
              = requests (queryManager v) @ [RejectQueryCall q msg]" for q msg v
    by (simp add: rejectQuery_def Let_def request_def set_pending_def split: option.splits)
  have gr: "gl (rejectQuery q msg v) = gl v" for q msg v
    by (simp add: rejectQuery_def Let_def request_def set_pending_def split: option.splits)
  have bq: "requests (queryManager (beginQuery q ty c e v))
              = requests (queryManager v) @ [BeginQueryCall q]"
           "gl (beginQuery q ty c e v) = gl v" for q ty c e v
    by (simp_all add: beginQuery_def Let_def request_def set_pending_def)
  show ?thesis
    using np t eq
    by (simp add: Query_begin_def Let_def rq gr bq gl_log_def)
qed

theorem Query_begin_again_restarts_witness:
  "\<not> queryPending queryA \<and>
   Query_begin GL_TIME_ELAPSED_EXT queryA env0 = beganA \<and>
   fst (Query_begin GL_ANY_SAMPLES_PASSED (fst beganA) (snd beganA))
     = (fst beganA)\<lparr>target := Some GL_ANY_SAMPLES_PASSED\<rparr> \<and>
   fst (Query_begin GL_ANY_SAMPLES_PASSED (fst beganA) (snd beganA)) \<noteq> fst beganA"
proof -
  have a: "\<not> queryPending queryA" by (simp add: queryA_def Query_new_def)
  have b: "Query_begin GL_TIME_ELAPSED_EXT queryA env0 = (fst beganA, snd beganA)"
    by (simp add: beganA_def Query_beginTimeElapsedQuery_def)
  have h: "GL_ANY_SAMPLES_PASSED \<noteq> GL_TIME_ELAPSED_EXT"
    by (simp add: GL_ANY_SAMPLES_PASSED_def GL_TIME_ELAPSED_EXT_def)
  from Query_begin_again_restarts [OF a b, of GL_ANY_SAMPLES_PASSED "snd beganA"] h
  have "fst (Query_begin GL_ANY_SAMPLES_PASSED (fst beganA) (snd beganA))
          = (fst beganA)\<lparr>target := Some GL_ANY_SAMPLES_PASSED\<rparr>"
    and "fst (Query_begin GL_ANY_SAMPLES_PASSED (fst beganA) (snd beganA)) \<noteq> fst beganA"
    by blast+
  with a b show ?thesis by simp
qed

section \<open>The sweep of \<open>poll\<close>\<close>

lemma filter_eq_distinct:
  "distinct xs \<Longrightarrow> e \<in> set xs \<Longrightarrow> filter (\<lambda>x. x = e) xs = [e]"
  by (induction xs) (auto simp: filter_empty_conv)

lemma find_by_key:
  "distinct (map f xs) \<Longrightarrow> e \<in> set xs \<Longrightarrow> find (\<lambda>x. f x = f e) xs = Some e"
  by (induction xs) auto

lemma pending_request [simp]: "pending (request c w) = pending w"
  by (simp add: pending_def request_def)

lemma rejectQuery_present:
  assumes "distinct (map e_query (pending w))" and "e \<in> set (pending w)"
  shows "callbacks (rejectQuery (e_query e) msg w)
           = callbacks w @ [Invoke (e_query e) (e_onError e) msg]"
    and "pending (rejectQuery (e_query e) msg w)
           = filter (\<lambda>x. e_query x \<noteq> e_query e) (pending w)"
    and "gl (rejectQuery (e_query e) msg w) = gl w"
    and "invalidators (queryManager (rejectQuery (e_query e) msg w))
           = invalidators (queryManager w)"
proof -
  from assms have "find (\<lambda>x. e_query x = e_query e) (pending (request (RejectQueryCall (e_query e) msg) w)) = Some e"
    by (simp add: find_by_key)
  then show "callbacks (rejectQuery (e_query e) msg w)
           = callbacks w @ [Invoke (e_query e) (e_onError e) msg]"
    and "pending (rejectQuery (e_query e) msg w)
           = filter (\<lambda>x. e_query x \<noteq> e_query e) (pending w)"
    and "gl (rejectQuery (e_query e) msg w) = gl w"
    and "invalidators (queryManager (rejectQuery (e_query e) msg w))
           = invalidators (queryManager w)"
    by (simp_all add: rejectQuery_def Let_def set_pending_def request_def pending_def)
qed

lemma fold_rejectQuery:
  assumes "distinct (map e_query (pending w))" and "set es \<subseteq> set (pending w)"
    and "distinct (map e_query es)"
  shows "callbacks (fold (\<lambda>e. rejectQuery (e_query e) msg) es w)
           = callbacks w @ map (\<lambda>e. Invoke (e_query e) (e_onError e) msg) es \<and>
         pending (fold (\<lambda>e. rejectQuery (e_query e) msg) es w)
           = filter (\<lambda>x. e_query x \<notin> e_query ` set es) (pending w) \<and>
         gl (fold (\<lambda>e. rejectQuery (e_query e) msg) es w) = gl w \<and>
         invalidators (queryManager (fold (\<lambda>e. rejectQuery (e_query e) msg) es w))
           = invalidators (queryManager w)"
  using assms
proof (induction es arbitrary: w)
  case Nil
  then show ?case by simp
next
  case (Cons e es)
  let ?w1 = "rejectQuery (e_query e) msg w"
  from Cons.prems have e_in: "e \<in> set (pending w)" by simp
  note r = rejectQuery_present [OF Cons.prems(1) e_in, of msg]
  have d1: "distinct (map e_query (pending ?w1))"
    using Cons.prems(1) by (simp add: r(2) distinct_map_filter)
  have s1: "set es \<subseteq> set (pending ?w1)"
  proof
    fix x assume x: "x \<in> set es"
    with Cons.prems(2) have "x \<in> set (pending w)" by auto
    moreover from x Cons.prems(3) have "e_query x \<noteq> e_query e"
      by (auto simp: image_iff)
    ultimately show "x \<in> set (pending ?w1)" by (simp add: r(2))
  qed
  have d2: "distinct (map e_query es)" using Cons.prems(3) by simp
  from Cons.IH [OF d1 s1 d2]
  show ?case by (simp add: r)
qed

lemma rejectPendingOfType_closed:
  assumes "distinct (map e_query (pending w))"
  shows "callbacks (rejectPendingOfType ty msg w)
           = callbacks w @ map (\<lambda>e. Invoke (e_query e) (e_onError e) msg)
                             (filter (\<lambda>e. e_type e = ty) (pending w))"
    and "pending (rejectPendingOfType ty msg w) = filter (\<lambda>e. e_type e \<noteq> ty) (pending w)"
    and "gl (rejectPendingOfType ty msg w) = gl w"
    and "invalidators (queryManager (rejectPendingOfType ty msg w))
           = invalidators (queryManager w)"
proof -
  let ?es = "filter (\<lambda>e. e_type e = ty) (pending w)"
  have sub: "set ?es \<subseteq> set (pending w)" by auto
  have d: "distinct (map e_query ?es)" using assms by (rule distinct_map_filter)
  note f = fold_rejectQuery [OF assms sub d, of msg]
  have inj: "inj_on e_query (set (pending w))"
    using assms by (simp add: distinct_map)
  have "filter (\<lambda>x. e_query x \<notin> e_query ` set ?es) (pending w)
          = filter (\<lambda>e. e_type e \<noteq> ty) (pending w)"
  proof (rule filter_cong [OF refl])
    fix x assume x: "x \<in> set (pending w)"
    show "(e_query x \<notin> e_query ` set ?es) = (e_type x \<noteq> ty)"
    proof
      assume "e_query x \<notin> e_query ` set ?es"
      with x show "e_type x \<noteq> ty" by auto
    next
      assume n: "e_type x \<noteq> ty"
      show "e_query x \<notin> e_query ` set ?es"
      proof
        assume "e_query x \<in> e_query ` set ?es"
        then obtain y where y: "y \<in> set (pending w)" "e_type y = ty" "e_query x = e_query y"
          by auto
        with inj x have "x = y" by (auto dest: inj_onD)
        with n y show False by simp
      qed
    qed
  qed
  with f show "callbacks (rejectPendingOfType ty msg w)
           = callbacks w @ map (\<lambda>e. Invoke (e_query e) (e_onError e) msg)
                             (filter (\<lambda>e. e_type e = ty) (pending w))"
    and "pending (rejectPendingOfType ty msg w) = filter (\<lambda>e. e_type e \<noteq> ty) (pending w)"
    and "gl (rejectPendingOfType ty msg w) = gl w"
    and "invalidators (queryManager (rejectPendingOfType ty msg w))
           = invalidators (queryManager w)"
    by (simp_all add: rejectPendingOfType_def)
qed

lemma poll_closed:
  assumes "invalidators (queryManager w) = [Query_invalidator]"
    and "distinct (map e_query (pending w))"
  shows "callbacks (poll w)
           = callbacks w @
             (if gpuDisjoint (gl w)
              then map (\<lambda>e. Invoke (e_query e) (e_onError e) ERR_GPU_DISJOINT)
                     (filter (\<lambda>e. e_type e = QueryClass) (pending w))
              else [])"
    and "pending (poll w)
           = (if gpuDisjoint (gl w) then filter (\<lambda>e. e_type e \<noteq> QueryClass) (pending w)
              else pending w)"
    and "gpuDisjoint (gl (poll w)) = False"
    and "invalidators (queryManager (poll w)) = [Query_invalidator]"
proof -
  let ?w1 = "request PollCall w"
  let ?g = "gl_log (GlGetParameter GL_GPU_DISJOINT_EXT) ((gl w)\<lparr>gpuDisjoint := False\<rparr>)"
  let ?w2 = "?w1\<lparr>gl := ?g\<rparr>"
  have inv1: "invalidators (queryManager ?w1) = [Query_invalidator]"
    using assms(1) by (simp add: request_def)
  have p2: "pending ?w2 = pending w" by (simp add: pending_def request_def)
  have d2: "distinct (map e_query (pending ?w2))" using assms(2) by (simp add: p2)
  have c2: "callbacks ?w2 = callbacks w" by (simp add: request_def)
  have i2: "invalidators (queryManager ?w2) = [Query_invalidator]"
    using assms(1) by (simp add: request_def)
  have g2: "gpuDisjoint (gl ?w2) = False" by (simp add: gl_log_def)
  note r = rejectPendingOfType_closed [OF d2, of QueryClass ERR_GPU_DISJOINT]
  have gl1: "gl ?w1 = gl w" by (simp add: request_def)
  have unfold: "poll w = (if gpuDisjoint (gl w)
                          then rejectPendingOfType QueryClass ERR_GPU_DISJOINT ?w2 else ?w2)"
    by (simp add: poll_def Let_def inv1 gl1 Query_invalidator_def gl_getParameter_DISJOINT_def)
  show "callbacks (poll w)
           = callbacks w @
             (if gpuDisjoint (gl w)
              then map (\<lambda>e. Invoke (e_query e) (e_onError e) ERR_GPU_DISJOINT)
                     (filter (\<lambda>e. e_type e = QueryClass) (pending w))
              else [])"
    unfolding unfold using r(1) c2 p2 by simp
  show "pending (poll w)
           = (if gpuDisjoint (gl w) then filter (\<lambda>e. e_type e \<noteq> QueryClass) (pending w)
              else pending w)"
    unfolding unfold using r(2) p2 by simp
  show "gpuDisjoint (gl (poll w)) = False"
    unfolding unfold using r(3) g2 by simp
  show "invalidators (queryManager (poll w)) = [Query_invalidator]"
    unfolding unfold using r(4) i2 by simp
qed

lemma pending_rejectQuery:
  "pending (rejectQuery q msg w) = filter (\<lambda>e. e_query e \<noteq> q) (pending w)"
proof (cases "find (\<lambda>e. e_query e = q) (pending w)")
  case None
  then have "\<forall>e\<in>set (pending w). e_query e \<noteq> q" by (simp add: find_None_iff)
  then have "filter (\<lambda>e. e_query e \<noteq> q) (pending w) = pending w" by simp
  with None show ?thesis
    by (simp add: rejectQuery_def Let_def)
next
  case (Some e)
  then show ?thesis
    by (simp add: rejectQuery_def Let_def set_pending_def pending_def request_def)
qed

lemma pending_beginQuery:
  "pending (beginQuery q ty onC onE w)
     = filter (\<lambda>e. e_query e \<noteq> q) (pending w) @
       [\<lparr>e_query = q, e_type = ty, e_onComplete = onC, e_onError = onE\<rparr>]"
  by (simp add: beginQuery_def Let_def set_pending_def pending_def request_def)

lemma pending_cancelQuery:
  "pending (cancelQuery q w) = filter (\<lambda>e. e_query e \<noteq> q) (pending w)"
  by (simp add: cancelQuery_def Let_def set_pending_def pending_def request_def)

lemma pending_gl_update [simp]: "pending (w\<lparr>gl := g\<rparr>) = pending w"
  by (simp add: pending_def)

lemma invalidators_kept [simp]:
  "invalidators (queryManager (beginQuery q ty onC onE w)) = invalidators (queryManager w)"
  "invalidators (queryManager (rejectQuery q msg w)) = invalidators (queryManager w)"
  "invalidators (queryManager (cancelQuery q w)) = invalidators (queryManager w)"
  by (simp_all add: beginQuery_def rejectQuery_def cancelQuery_def Let_def set_pending_def
        request_def split: option.splits)

text \<open>
  The environment the module starts from satisfies \<open>manager_ok\<close>, and every method of
  \<open>Query\<close> keeps it.
\<close>

lemma manager_ok_env0: "manager_ok env0"
  by (simp add: manager_ok_def example_defs manager_defs)

lemma manager_ok_begin: "manager_ok w \<Longrightarrow> manager_ok (snd (Query_begin tgt q w))"
  by (auto simp: manager_ok_def Query_begin_def Let_def pending_beginQuery pending_rejectQuery
        distinct_map_filter)

lemma manager_ok_getTimestamp: "manager_ok w \<Longrightarrow> manager_ok (snd (Query_getTimestamp q w))"
  by (auto simp: manager_ok_def Query_getTimestamp_def Let_def pending_beginQuery
        pending_rejectQuery distinct_map_filter)

lemma manager_ok_end: "manager_ok w \<Longrightarrow> manager_ok (snd (Query_end q w))"
  by (auto simp: manager_ok_def Query_end_def split: option.splits)

lemma manager_ok_cancel: "manager_ok w \<Longrightarrow> manager_ok (snd (Query_cancel q w))"
  by (auto simp: manager_ok_def Query_cancel_def Query_end_def pending_cancelQuery
        distinct_map_filter split: option.splits)

lemma manager_ok_isResultAvailable:
  "manager_ok w \<Longrightarrow> manager_ok (snd (snd (Query_isResultAvailable q w)))"
  by (auto simp: manager_ok_def Query_isResultAvailable_def gl_getQueryParameter_AVAILABLE_def)

lemma manager_ok_poll: "manager_ok w \<Longrightarrow> manager_ok (Query_poll w)"
  unfolding manager_ok_def Query_poll_def
  by (auto simp: poll_closed distinct_map_filter)

text \<open>
  Claim C1. Let the manager hold the registration made by the module of \<open>Query\<close>, let no
  query have two pending entries, and let the GPU be in the disjoint state when \<open>poll\<close>
  runs. Then for every \<open>Query\<close> that was pending before the poll, the callbacks invoked
  by the poll for that query are exactly one: its \<open>onError\<close>, with the message
  \<open>'Disjoint GPU operation invalidated timer queries'\<close>; and the query is no longer
  pending. The callbacks invoked before the poll are untouched. The poll consumes the
  flag, so a poll that follows at once invokes no callback; nor does any poll that finds
  the flag false, which also leaves the pending set as it is.
\<close>

theorem poll_disjoint_rejects_pending:
  assumes "invalidators (queryManager w) = [Query_invalidator]"
    and "distinct (map e_query (pending w))"
    and "gpuDisjoint (gl w)"
  shows "(\<forall>e\<in>set (pending w). e_type e = QueryClass \<longrightarrow>
            filter (\<lambda>ev. ev_query ev = e_query e)
                (drop (length (callbacks w)) (callbacks (Query_poll w)))
              = [Invoke (e_query e) (e_onError e) ERR_GPU_DISJOINT] \<and>
            e_query e \<notin> e_query ` set (pending (Query_poll w))) \<and>
         take (length (callbacks w)) (callbacks (Query_poll w)) = callbacks w \<and>
         callbacks (Query_poll (Query_poll w)) = callbacks (Query_poll w) \<and>
         (\<forall>w'. invalidators (queryManager w') = [Query_invalidator] \<and>
               distinct (map e_query (pending w')) \<and> \<not> gpuDisjoint (gl w') \<longrightarrow>
               callbacks (Query_poll w') = callbacks w' \<and> pending (Query_poll w') = pending w')"
proof -
  note p = poll_closed [OF assms(1,2)]
  let ?new = "map (\<lambda>e. Invoke (e_query e) (e_onError e) ERR_GPU_DISJOINT)
                (filter (\<lambda>e. e_type e = QueryClass) (pending w))"
  have cb: "callbacks (Query_poll w) = callbacks w @ ?new"
    using p(1) assms(3) by (simp add: Query_poll_def)
  have pd: "pending (Query_poll w) = filter (\<lambda>e. e_type e \<noteq> QueryClass) (pending w)"
    using p(2) assms(3) by (simp add: Query_poll_def)
  have inj: "inj_on e_query (set (pending w))"
    using assms(2) by (simp add: distinct_map)
  have once: "filter (\<lambda>ev. ev_query ev = e_query e) ?new
                = [Invoke (e_query e) (e_onError e) ERR_GPU_DISJOINT]"
    if e: "e \<in> set (pending w)" "e_type e = QueryClass" for e
  proof -
    have "filter (\<lambda>ev. ev_query ev = e_query e) ?new
            = map (\<lambda>e. Invoke (e_query e) (e_onError e) ERR_GPU_DISJOINT)
                (filter (\<lambda>x. e_query x = e_query e)
                   (filter (\<lambda>e. e_type e = QueryClass) (pending w)))"
      by (simp add: filter_map comp_def)
    also have "filter (\<lambda>x. e_query x = e_query e)
                 (filter (\<lambda>e. e_type e = QueryClass) (pending w))
               = filter (\<lambda>x. x = e) (pending w)"
      unfolding filter_filter
    proof (rule filter_cong [OF refl])
      fix x assume "x \<in> set (pending w)"
      with inj e show "(e_type x = QueryClass \<and> e_query x = e_query e) = (x = e)"
        by (auto dest: inj_onD)
    qed
    also have "\<dots> = [e]"
      using e(1) assms(2) by (simp add: distinct_map filter_eq_distinct)
    finally show ?thesis by simp
  qed
  have gone: "e_query e \<notin> e_query ` set (pending (Query_poll w))"
    if e: "e \<in> set (pending w)" "e_type e = QueryClass" for e
  proof
    assume "e_query e \<in> e_query ` set (pending (Query_poll w))"
    then obtain y where y: "y \<in> set (pending w)" "e_type y \<noteq> QueryClass" "e_query e = e_query y"
      by (auto simp: pd)
    with inj e have "e = y" by (auto dest: inj_onD)
    with y e show False by simp
  qed
  have second: "callbacks (Query_poll (Query_poll w)) = callbacks (Query_poll w)"
  proof -
    have d: "distinct (map e_query (pending (poll w)))"
      using assms(2) p(2) by (simp add: distinct_map_filter)
    from poll_closed(1) [OF p(4) d] p(3) show ?thesis by (simp add: Query_poll_def)
  qed
  have later: "callbacks (Query_poll w') = callbacks w' \<and> pending (Query_poll w') = pending w'"
    if "invalidators (queryManager w') = [Query_invalidator]"
      "distinct (map e_query (pending w'))" "\<not> gpuDisjoint (gl w')" for w'
    using poll_closed(1,2) [OF that(1,2)] that(3) by (simp add: Query_poll_def)
  show ?thesis
    using once gone second later by (simp add: cb)
qed

theorem poll_disjoint_rejects_pending_witness:
  "invalidators (queryManager (nowDisjoint endedAB)) = [Query_invalidator] \<and>
   distinct (map e_query (pending (nowDisjoint endedAB))) \<and>
   gpuDisjoint (gl (nowDisjoint endedAB)) \<and>
   pending (nowDisjoint endedAB)
     = [\<lparr>e_query = 1, e_type = QueryClass, e_onComplete = 10, e_onError = 11\<rparr>,
        \<lparr>e_query = 2, e_type = QueryClass, e_onComplete = 20, e_onError = 21\<rparr>] \<and>
   filter (\<lambda>ev. ev_query ev = 1) (callbacks (Query_poll (nowDisjoint endedAB)))
     = [Invoke 1 11 ERR_GPU_DISJOINT] \<and>
   filter (\<lambda>ev. ev_query ev = 2) (callbacks (Query_poll (nowDisjoint endedAB)))
     = [Invoke 2 21 ERR_GPU_DISJOINT] \<and>
   1 \<notin> e_query ` set (pending (Query_poll (nowDisjoint endedAB))) \<and>
   2 \<notin> e_query ` set (pending (Query_poll (nowDisjoint endedAB))) \<and>
   callbacks (Query_poll (Query_poll (nowDisjoint endedAB)))
     = callbacks (Query_poll (nowDisjoint endedAB))"
proof -
  let ?w = "nowDisjoint endedAB"
  have p: "pending ?w
     = [\<lparr>e_query = 1, e_type = QueryClass, e_onComplete = 10, e_onError = 11\<rparr>,
        \<lparr>e_query = 2, e_type = QueryClass, e_onComplete = 20, e_onError = 21\<rparr>]"
    by (simp add: example_defs manager_defs query_defs)
  have i: "invalidators (queryManager ?w) = [Query_invalidator]"
    by (simp add: example_defs manager_defs query_defs)
  have d: "distinct (map e_query (pending ?w))" by (simp add: p)
  have g: "gpuDisjoint (gl ?w)" by (simp add: nowDisjoint_def)
  have c: "callbacks ?w = []" by (simp add: example_defs manager_defs query_defs)
  from poll_disjoint_rejects_pending [OF i d g]
  show ?thesis using i d g by (simp add: p c)
qed

end
